theory Spec2Isabelle
  imports Main
begin

section \<open>Strings and the path functions of \<^verbatim>\<open>os.path\<close> (POSIX flavour)\<close>

text \<open>
  \<^verbatim>\<open>evilArc3.py\<close> computes archive member names with \<^verbatim>\<open>str.endswith\<close>,
  \<^verbatim>\<open>str.lower\<close>, \<^verbatim>\<open>os.path.splitext\<close>, \<^verbatim>\<open>os.path.basename\<close> and
  \<^verbatim>\<open>os.path.abspath\<close>. These are pure string functions of the Python standard library;
  they are embedded here as \<^verbatim>\<open>posixpath\<close> and \<^verbatim>\<open>genericpath\<close> define them (separator
  \<^verbatim>\<open>/\<close>, no alternative separator, extension separator \<^verbatim>\<open>.\<close>). A path is a
  \<^typ>\<open>string\<close>; the characters that the program inspects (slash, backslash, dot and
  the letters of the extensions) are ASCII.
\<close>

type_synonym path = string

abbreviation sep :: char where
  "sep \<equiv> CHR ''/''"

abbreviation backslash :: char where
  "backslash \<equiv> CHR 0x5C"

abbreviation extsep :: char where
  "extsep \<equiv> CHR ''.''"

text \<open>\<^verbatim>\<open>s.endswith((a, b))\<close> with one-character suffixes \<open>a\<close> and \<open>b\<close>.\<close>

definition endswith :: "string \<Rightarrow> char list \<Rightarrow> bool" where
  "endswith s cs = (s \<noteq> [] \<and> last s \<in> set cs)"

text \<open>
  \<^verbatim>\<open>str.lower\<close> on the ASCII letters. A character outside \<^verbatim>\<open>A\<close>..\<^verbatim>\<open>Z\<close> is left
  as it is. In Python a non-ASCII code point lower-cases to a string that still holds
  a non-ASCII code point, or to the letter \<^verbatim>\<open>k\<close>, so an extension with such a code
  point is not a recognised one either way and the dispatch below is not affected.
\<close>

definition lower_char :: "char \<Rightarrow> char" where
  "lower_char c =
     (case map_of (zip ''ABCDEFGHIJKLMNOPQRSTUVWXYZ'' ''abcdefghijklmnopqrstuvwxyz'') c of
        Some d \<Rightarrow> d
      | None \<Rightarrow> c)"

definition lower :: "string \<Rightarrow> string" where
  "lower s = map lower_char s"

text \<open>\<^verbatim>\<open>p.rfind(c)\<close>: the highest index of \<open>c\<close> in \<open>p\<close>, or \<open>-1\<close>.\<close>

definition rfind :: "string \<Rightarrow> char \<Rightarrow> int" where
  "rfind p c =
     (if c \<in> set p
      then int (length p) - 1 - int (length (takeWhile (\<lambda>x. x \<noteq> c) (rev p)))
      else - 1)"

text \<open>\<^verbatim>\<open>os.path.basename\<close>: \<^verbatim>\<open>i = p.rfind('/') + 1; return p[i:]\<close>.\<close>

definition basename :: "path \<Rightarrow> string" where
  "basename p = drop (nat (rfind p sep + 1)) p"

text \<open>
  \<^verbatim>\<open>genericpath._splitext\<close>. Its inner loop walks from the start of the last component
  up to the last dot and returns the split at the first character that is not a dot;
  \<open>skip_leading_dots\<close> tells whether the loop reaches that \<^verbatim>\<open>return\<close>.
  \<^verbatim>\<open>
  sepIndex = p.rfind(sep)
  dotIndex = p.rfind(extsep)
  if dotIndex > sepIndex:
      filenameIndex = sepIndex + 1
      while filenameIndex < dotIndex:
          if p[filenameIndex:filenameIndex+1] != extsep:
              return p[:dotIndex], p[dotIndex:]
          filenameIndex += 1
  return p, p[:0]
  \<close>
\<close>

function skip_leading_dots :: "string \<Rightarrow> nat \<Rightarrow> nat \<Rightarrow> bool" where
  "skip_leading_dots p filenameIndex dotIndex =
     (if filenameIndex < dotIndex
      then (if take 1 (drop filenameIndex p) \<noteq> [extsep] then True
            else skip_leading_dots p (Suc filenameIndex) dotIndex)
      else False)"
  by pat_completeness auto
termination
  by (relation "measure (\<lambda>(p, filenameIndex, dotIndex). dotIndex - filenameIndex)") auto

declare skip_leading_dots.simps [simp del]

definition splitext :: "path \<Rightarrow> string \<times> string" where
  "splitext p =
     (let sepIndex = rfind p sep; dotIndex = rfind p extsep
      in if dotIndex > sepIndex \<and> skip_leading_dots p (nat (sepIndex + 1)) (nat dotIndex)
         then (take (nat dotIndex) p, drop (nat dotIndex) p)
         else (p, []))"

text \<open>\<^verbatim>\<open>str.split('/')\<close> and \<^verbatim>\<open>'/'.join(comps)\<close>.\<close>

fun split :: "char \<Rightarrow> string \<Rightarrow> string list" where
  "split c [] = [[]]"
| "split c (x # xs) =
     (if x = c then [] # split c xs
      else (x # hd (split c xs)) # tl (split c xs))"

fun join_with :: "char \<Rightarrow> string list \<Rightarrow> string" where
  "join_with c [] = []"
| "join_with c [w] = w"
| "join_with c (w # v # ws) = w @ c # join_with c (v # ws)"

text \<open>
  \<^verbatim>\<open>posixpath.normpath\<close>. \<open>initial_slashes\<close> is 0, 1 or 2 (two leading slashes are
  kept, three or more count as one). The loop over the components keeps a stack
  \<open>new_comps\<close>, extended at its end.
  \<^verbatim>\<open>
  for comp in comps:
      if comp in ('', '.'): continue
      if (comp != '..' or (not initial_slashes and not new_comps) or
              (new_comps and new_comps[-1] == '..')):
          new_comps.append(comp)
      elif new_comps:
          new_comps.pop()
  \<close>
\<close>

definition initial_slashes :: "path \<Rightarrow> nat" where
  "initial_slashes p =
     (if take 1 p = [sep]
      then (if take 2 p = [sep, sep] \<and> take 3 p \<noteq> [sep, sep, sep] then 2 else 1)
      else 0)"

fun norm_comps :: "nat \<Rightarrow> string list \<Rightarrow> string list \<Rightarrow> string list" where
  "norm_comps ini new_comps [] = new_comps"
| "norm_comps ini new_comps (cmp # comps) =
     (if cmp = [] \<or> cmp = ''.'' then norm_comps ini new_comps comps
      else if cmp \<noteq> ''..'' \<or> (ini = 0 \<and> new_comps = [])
                \<or> (new_comps \<noteq> [] \<and> last new_comps = ''..'')
      then norm_comps ini (new_comps @ [cmp]) comps
      else if new_comps \<noteq> [] then norm_comps ini (butlast new_comps) comps
      else norm_comps ini new_comps comps)"

definition normpath :: "path \<Rightarrow> path" where
  "normpath p =
     (if p = [] then ''.''
      else let ini = initial_slashes p;
               q = join_with sep (norm_comps ini [] (split sep p));
               r = (if ini \<noteq> 0 then replicate ini sep @ q else q)
           in if r = [] then ''.'' else r)"

text \<open>
  \<^verbatim>\<open>posixpath.join(a, b)\<close> for two arguments, and \<^verbatim>\<open>posixpath.abspath\<close>, which joins a
  relative path to the current working directory (here the argument \<open>cwd\<close>, the value
  of \<^verbatim>\<open>os.getcwd()\<close>) and normalises; it never looks at the file system.
\<close>

definition isabs :: "path \<Rightarrow> bool" where
  "isabs p = (take 1 p = [sep])"

definition path_join :: "path \<Rightarrow> path \<Rightarrow> path" where
  "path_join a b =
     (if isabs b then b
      else if a = [] \<or> endswith a [sep] then a @ b
      else a @ [sep] @ b)"

definition abspath :: "path \<Rightarrow> path \<Rightarrow> path" where
  "abspath cwd p = normpath (if isabs p then p else path_join cwd p)"

section \<open>The file system and the archive libraries\<close>

text \<open>
  An archive member is the pair of the name it is stored under (the \<^verbatim>\<open>arcname\<close> argument
  that the program hands to \<^verbatim>\<open>ZipFile.write\<close> or \<^verbatim>\<open>TarFile.add\<close>) and the source
  file it is read from. What the program controls is that argument; the member name
  below is that argument, as the program passes it.

  The file system is what \<^verbatim>\<open>os.path.exists\<close>, \<^verbatim>\<open>os.path.isfile\<close> and the archive
  libraries see under a path string: nothing, a directory, a regular file that is no
  archive, or an archive of some format with its members in order.
\<close>

type_synonym member = "string \<times> path"

datatype format = ZipFormat | TarFormat | TarGzFormat | TarBz2Format

datatype node = Dir | Plain | Archive format "member list"

record fsys =
  cwd :: path
  disk :: "path \<Rightarrow> node option"

definition path_exists :: "fsys \<Rightarrow> path \<Rightarrow> bool" where
  "path_exists fs p = (disk fs p \<noteq> None)"

definition isfile :: "fsys \<Rightarrow> path \<Rightarrow> bool" where
  "isfile fs p = (case disk fs p of None \<Rightarrow> False | Some Dir \<Rightarrow> False | Some _ \<Rightarrow> True)"

definition members :: "fsys \<Rightarrow> path \<Rightarrow> member list" where
  "members fs p = (case disk fs p of Some (Archive k ms) \<Rightarrow> ms | _ \<Rightarrow> [])"

text \<open>The open modes \<^verbatim>\<open>'a'\<close>, \<^verbatim>\<open>'w'\<close>, \<^verbatim>\<open>'w:gz'\<close> and \<^verbatim>\<open>'w:bz2'\<close>.\<close>

datatype mode = ModeA | ModeW | ModeWGz | ModeWBz2

text \<open>
  The two library calls of \<^verbatim>\<open>build_archive\<close>: \<^verbatim>\<open>zipfile.ZipFile(out_name, wmode)\<close>
  and \<^verbatim>\<open>tarfile.open(out_name, mode)\<close>.
\<close>

datatype writer = ZipFile mode | TarOpen mode

datatype error =
    SystemExit string
  | KeyError string
  | OSError path
  | ReadError path

type_synonym 'a result = "error + 'a"

definition format_of :: "writer \<Rightarrow> format" where
  "format_of w =
     (case w of
        ZipFile m \<Rightarrow> ZipFormat
      | TarOpen ModeWGz \<Rightarrow> TarGzFormat
      | TarOpen ModeWBz2 \<Rightarrow> TarBz2Format
      | TarOpen _ \<Rightarrow> TarFormat)"

text \<open>
  Opening the output. The result is the list of members that the opened archive
  already holds: in append mode the members of an existing archive of the same
  container format, and none otherwise (every \<^verbatim>\<open>w\<close> mode truncates; \<^verbatim>\<open>zipfile\<close> in
  append mode starts a new archive at the end of a file that is no zip archive).
  Opening a directory raises, and \<^verbatim>\<open>tarfile\<close> in append mode raises \<^verbatim>\<open>ReadError\<close> on an
  existing file that is no uncompressed tar archive. The directory that holds the
  output is taken to exist and to be writable.
\<close>

definition open_archive :: "fsys \<Rightarrow> writer \<Rightarrow> path \<Rightarrow> member list result" where
  "open_archive fs w out_name =
     (case disk fs out_name of
        None \<Rightarrow> Inr []
      | Some Dir \<Rightarrow> Inl (OSError out_name)
      | Some Plain \<Rightarrow> (if w = TarOpen ModeA then Inl (ReadError out_name) else Inr [])
      | Some (Archive k ms) \<Rightarrow>
          (case w of
             ZipFile m \<Rightarrow> Inr (if m = ModeA \<and> k = ZipFormat then ms else [])
           | TarOpen m \<Rightarrow>
               (if m = ModeA then (if k = TarFormat then Inr ms else Inl (ReadError out_name))
                else Inr [])))"

text \<open>
  \<^verbatim>\<open>zf.write(f, name)\<close> and \<^verbatim>\<open>tf.add(f, name)\<close> append one member to the open archive
  when \<open>f\<close> is a regular file, which \<^verbatim>\<open>main\<close> has checked for every input. For a missing
  file the libraries raise; for a directory they store a directory entry or recurse,
  which \<^verbatim>\<open>main\<close> never lets happen and which is not described here: the loop stops
  with \<open>OSError\<close> in both cases. The members written so far stay in the output (the
  \<^verbatim>\<open>with\<close> block only releases the handle).
\<close>

definition add_member :: "fsys \<Rightarrow> path \<Rightarrow> member \<Rightarrow> fsys" where
  "add_member fs out_name m =
     (case disk fs out_name of
        Some (Archive k ms) \<Rightarrow> fs\<lparr>disk := (disk fs)(out_name \<mapsto> Archive k (ms @ [m]))\<rparr>
      | _ \<Rightarrow> fs)"

fun add_files :: "fsys \<Rightarrow> path \<Rightarrow> (path \<Rightarrow> string) \<Rightarrow> path list \<Rightarrow> unit result \<times> fsys" where
  "add_files fs out_name nm [] = (Inr (), fs)"
| "add_files fs out_name nm (f # files) =
     (if isfile fs f then add_files (add_member fs out_name (nm f, f)) out_name nm files
      else (Inl (OSError f), fs))"

section \<open>\<^verbatim>\<open>build_archive\<close> and \<^verbatim>\<open>main\<close>\<close>

text \<open>
  Lines 28-29: \<^verbatim>\<open>if traversal_path and not traversal_path.endswith(('/', '\\')):
  traversal_path += '/'\<close>.
\<close>

definition normalize_traversal :: "string \<Rightarrow> string" where
  "normalize_traversal traversal_path =
     (if traversal_path \<noteq> [] \<and> \<not> endswith traversal_path [sep, backslash]
      then traversal_path @ [sep]
      else traversal_path)"

text \<open>
  Lines 34-38, the closure \<^verbatim>\<open>internal_name\<close>; its free variables \<^verbatim>\<open>traversal_path\<close>
  (already normalised) and \<^verbatim>\<open>target\<close> are parameters here, as is the working
  directory that \<^verbatim>\<open>os.path.abspath\<close> reads.
\<close>

definition internal_name :: "path \<Rightarrow> string \<Rightarrow> path \<Rightarrow> path \<Rightarrow> string" where
  "internal_name wd traversal_path target fname =
     (if abspath wd fname = abspath wd target
      then traversal_path @ basename fname
      else basename fname)"

text \<open>Line 31 and line 32.\<close>

definition ext_of :: "path \<Rightarrow> string" where
  "ext_of out_name = lower (snd (splitext out_name))"

definition wmode_of :: "fsys \<Rightarrow> path \<Rightarrow> mode" where
  "wmode_of fs out_name = (if path_exists fs out_name then ModeA else ModeW)"

text \<open>
  Lines 41, 46-52 and 56-57: the branch of the \<^verbatim>\<open>if\<close>/\<^verbatim>\<open>elif\<close>/\<^verbatim>\<open>else\<close> chain that
  the extension selects, with the mode looked up in the dictionary of lines 47-52.
\<close>

definition mode_table :: "mode \<Rightarrow> (string \<times> mode) list" where
  "mode_table wmode =
     [(''.tar'', wmode), (''.gz'', ModeWGz), (''.tgz'', ModeWGz), (''.bz2'', ModeWBz2)]"

definition select_writer :: "string \<Rightarrow> mode \<Rightarrow> writer result" where
  "select_writer ext wmode =
     (if ext \<in> {''.zip'', ''.jar''} then Inr (ZipFile wmode)
      else if ext \<in> {''.tar'', ''.gz'', ''.tgz'', ''.bz2''}
      then (case map_of (mode_table wmode) ext of
              Some m \<Rightarrow> Inr (TarOpen m)
            | None \<Rightarrow> Inl (KeyError ext))
      else Inl (SystemExit (''Unsupported archive extension: '' @ ext)))"

definition build_archive ::
    "fsys \<Rightarrow> path list \<Rightarrow> string \<Rightarrow> path \<Rightarrow> path \<Rightarrow> unit result \<times> fsys" where
  "build_archive fs files traversal_path target out_name =
     (let traversal_path' = normalize_traversal traversal_path;
          ext = ext_of out_name;
          wmode = wmode_of fs out_name
      in case select_writer ext wmode of
           Inl e \<Rightarrow> (Inl e, fs)
         | Inr w \<Rightarrow>
             (case open_archive fs w out_name of
                Inl e \<Rightarrow> (Inl e, fs)
              | Inr ms \<Rightarrow>
                  add_files (fs\<lparr>disk := (disk fs)(out_name \<mapsto> Archive (format_of w) ms)\<rparr>)
                    out_name (internal_name (cwd fs) traversal_path' target) files))"



text \<open>
  Observations of a build for the statements below. \<open>kept\<close> is the list of members that
  the output already held and that the build keeps (empty unless it appends);
  \<open>entry_for\<close> is the member written for the \<open>i\<close>-th input file.
\<close>

definition kept :: "fsys \<Rightarrow> path \<Rightarrow> member list" where
  "kept fs out_name =
     (case select_writer (ext_of out_name) (wmode_of fs out_name) of
        Inl e \<Rightarrow> []
      | Inr w \<Rightarrow> (case open_archive fs w out_name of Inl e \<Rightarrow> [] | Inr ms \<Rightarrow> ms))"

definition entry_for :: "fsys \<Rightarrow> fsys \<Rightarrow> path \<Rightarrow> nat \<Rightarrow> member" where
  "entry_for fs fs' out_name i = members fs' out_name ! (length (kept fs out_name) + i)"

text \<open>
  The container format that the branch taken for an output name produces, and the
  format of the archive found at a path.
\<close>

definition selected_format :: "fsys \<Rightarrow> path \<Rightarrow> format option" where
  "selected_format fs out_name =
     (case select_writer (ext_of out_name) (wmode_of fs out_name) of
        Inl e \<Rightarrow> None
      | Inr w \<Rightarrow> Some (format_of w))"

definition format_at :: "fsys \<Rightarrow> path \<Rightarrow> format option" where
  "format_at fs p = (case disk fs p of Some (Archive k ms) \<Rightarrow> Some k | _ \<Rightarrow> None)"


text \<open>
  A small file system for concrete runs: three spellings of one regular file in the
  working directory \<^verbatim>\<open>/home/u\<close>, two more files, and an existing zip archive with
  one member.
\<close>

definition demo_fs :: fsys where
  "demo_fs =
     \<lparr>cwd = ''/home/u'',
      disk = map_of
        [(''a.txt'', Plain), (''./a.txt'', Plain), (''/home/u/a.txt'', Plain),
         (''b.txt'', Plain), (''docs/b.txt'', Plain),
         (''old.zip'', Archive ZipFormat [(''old.txt'', ''old.txt'')])]\<rparr>"

section \<open>Properties of the path functions\<close>

lemma rfind_absent: "c \<notin> set p \<Longrightarrow> rfind p c = - 1"
  by (simp add: rfind_def)

lemma rfind_last_occurrence: "c \<notin> set b \<Longrightarrow> rfind (a @ c # b) c = int (length a)"
proof -
  assume nb: "c \<notin> set b"
  then have "takeWhile (\<lambda>x. x \<noteq> c) (rev b @ c # rev a) = rev b"
    by (subst takeWhile_append2) auto
  then show ?thesis by (simp add: rfind_def)
qed

lemma rfind_cases:
  obtains (absent) "c \<notin> set p" "rfind p c = - 1"
  | (present) a b where "p = a @ c # b" "c \<notin> set b" "rfind p c = int (length a)"
proof (cases "c \<in> set p")
  case False
  then show ?thesis using absent by (simp add: rfind_absent)
next
  case True
  then obtain a b where "p = a @ c # b" "c \<notin> set b"
    by (meson split_list_last)
  then show ?thesis using present rfind_last_occurrence by blast
qed

lemma rfind_append_absent: "c \<notin> set b \<Longrightarrow> rfind (a @ b) c = rfind a c"
proof (cases a c rule: rfind_cases)
  case absent
  assume "c \<notin> set b"
  with absent show ?thesis by (simp add: rfind_absent)
next
  case (present a1 a2)
  assume "c \<notin> set b"
  with present have "rfind (a1 @ c # (a2 @ b)) c = int (length a1)"
    by (intro rfind_last_occurrence) simp
  with present show ?thesis by simp
qed

lemma rfind_bounds: "- 1 \<le> rfind p c \<and> rfind p c < int (length p)"
  by (cases p c rule: rfind_cases) auto

lemma basename_no_sep: "sep \<notin> set p \<Longrightarrow> basename p = p"
  by (simp add: basename_def rfind_absent)

lemma basename_last_component: "sep \<notin> set b \<Longrightarrow> basename (a @ sep # b) = b"
proof -
  have "nat (int (length a) + 1) = Suc (length a)" by simp
  moreover assume "sep \<notin> set b"
  ultimately show ?thesis by (simp add: basename_def rfind_last_occurrence)
qed

lemma basename_free_of_sep: "sep \<notin> set (basename p)"
  by (cases p sep rule: rfind_cases) (simp_all add: basename_no_sep basename_last_component)


lemma skip_leading_dots_iff:
  "skip_leading_dots p i d \<longleftrightarrow> (\<exists>k. i \<le> k \<and> k < d \<and> take 1 (drop k p) \<noteq> [extsep])"
proof (induction p i d rule: skip_leading_dots.induct)
  case (1 p i d)
  show ?case
  proof (cases "i < d")
    case False
    then show ?thesis by (simp add: skip_leading_dots.simps [of p i d])
  next
    case True
    show ?thesis
    proof (cases "take 1 (drop i p) \<noteq> [extsep]")
      case True
      with \<open>i < d\<close> show ?thesis
        by (auto simp add: skip_leading_dots.simps [of p i d])
    next
      case False
      with \<open>i < d\<close> have "skip_leading_dots p i d = skip_leading_dots p (Suc i) d"
        by (simp add: skip_leading_dots.simps [of p i d])
      also have "\<dots> \<longleftrightarrow> (\<exists>k. Suc i \<le> k \<and> k < d \<and> take 1 (drop k p) \<noteq> [extsep])"
        using 1 True False by simp
      also have "\<dots> \<longleftrightarrow> (\<exists>k. i \<le> k \<and> k < d \<and> take 1 (drop k p) \<noteq> [extsep])"
        using False by (metis Suc_leD Suc_leI le_neq_implies_less)
      finally show ?thesis .
    qed
  qed
qed

lemma splitext_extension:
  assumes stem: "\<exists>c\<in>set (basename stem). c \<noteq> extsep"
    and e: "extsep \<notin> set e" "sep \<notin> set e"
  shows "splitext (stem @ extsep # e) = (stem, extsep # e)"
proof -
  let ?p = "stem @ extsep # e"
  have dot: "rfind ?p extsep = int (length stem)"
    using e by (simp add: rfind_last_occurrence)
  have "sep \<notin> set (extsep # e)" using e by simp
  then have sp: "rfind ?p sep = rfind stem sep"
    by (rule rfind_append_absent)
  have lt: "rfind stem sep < int (length stem)" "- 1 \<le> rfind stem sep"
    using rfind_bounds [of stem sep] by simp_all
  define n where "n = nat (rfind stem sep + 1)"
  have n: "n \<le> length stem" using lt by (simp add: n_def)
  from stem obtain c where c: "c \<in> set (drop n stem)" "c \<noteq> extsep"
    by (auto simp add: basename_def n_def)
  then obtain j where j: "j < length (drop n stem)" "drop n stem ! j = c"
    by (meson in_set_conv_nth)
  then have k: "n + j < length stem" "stem ! (n + j) = c"
    using n by simp_all
  then have "take 1 (drop (n + j) ?p) = [c]"
    by (simp add: take_Suc_conv_app_nth Cons_nth_drop_Suc [symmetric] nth_append)
  with c k have "skip_leading_dots ?p n (length stem)"
    unfolding skip_leading_dots_iff by (intro exI [of _ "n + j"]) simp
  then show ?thesis
    using dot sp lt by (simp add: splitext_def n_def)
qed

lemma splitext_no_extension:
  assumes stem: "\<forall>c\<in>set (basename stem). c = extsep"
    and e: "extsep \<notin> set e" "sep \<notin> set e"
  shows "splitext (stem @ extsep # e) = (stem @ extsep # e, [])"
proof -
  let ?p = "stem @ extsep # e"
  have dot: "rfind ?p extsep = int (length stem)"
    using e by (simp add: rfind_last_occurrence)
  have "sep \<notin> set (extsep # e)" using e by simp
  then have sp: "rfind ?p sep = rfind stem sep"
    by (rule rfind_append_absent)
  have lt: "rfind stem sep < int (length stem)" "- 1 \<le> rfind stem sep"
    using rfind_bounds [of stem sep] by simp_all
  define n where "n = nat (rfind stem sep + 1)"
  have "take 1 (drop k ?p) = [extsep]" if k: "n \<le> k" "k < length stem" for k
  proof -
    have "k - n < length (drop n stem)" using k by simp
    then have "drop n stem ! (k - n) \<in> set (drop n stem)" by (rule nth_mem)
    moreover have "drop n stem ! (k - n) = stem ! k" using k by simp
    ultimately have "stem ! k \<in> set (drop n stem)" by simp
    then have "stem ! k = extsep"
      using stem by (simp add: basename_def n_def)
    moreover have "?p ! k = stem ! k" using k by (simp add: nth_append)
    moreover have "drop k ?p = ?p ! k # drop (Suc k) ?p"
      using k by (intro Cons_nth_drop_Suc [symmetric]) simp
    ultimately show ?thesis by simp
  qed
  then have "\<not> skip_leading_dots ?p n (length stem)"
    unfolding skip_leading_dots_iff by blast
  then show ?thesis
    using dot sp by (simp add: splitext_def n_def)
qed

lemma lower_char_fixes:
  "c \<notin> set ''ABCDEFGHIJKLMNOPQRSTUVWXYZ'' \<Longrightarrow> lower_char c = c"
  by (simp add: lower_char_def)

lemma lower_char_sep [simp]: "lower_char c = sep \<longleftrightarrow> c = sep"
  by (simp add: lower_char_def)

lemma lower_char_extsep [simp]: "lower_char c = extsep \<longleftrightarrow> c = extsep"
  by (simp add: lower_char_def)

lemma lower_char_idem [simp]: "lower_char (lower_char c) = lower_char c"
  by (simp add: lower_char_def)

lemma lower_idem: "lower (lower s) = lower s"
  by (simp add: lower_def)

lemma rfind_map:
  assumes "\<And>x. f x = c \<longleftrightarrow> x = c"
  shows "rfind (map f p) c = rfind p c"
proof -
  have "(\<lambda>x. x \<noteq> c) \<circ> f = (\<lambda>x. x \<noteq> c)"
    using assms by (auto simp add: fun_eq_iff)
  moreover have "c \<in> set (map f p) \<longleftrightarrow> c \<in> set p"
  proof
    assume "c \<in> set (map f p)"
    then obtain x where "x \<in> set p" "f x = c" by auto
    with assms show "c \<in> set p" by simp
  next
    assume "c \<in> set p"
    moreover have "f c = c" using assms by simp
    ultimately show "c \<in> set (map f p)" by force
  qed
  moreover have "length (takeWhile (\<lambda>x. x \<noteq> c) (rev (map f p))) =
      length (takeWhile ((\<lambda>x. x \<noteq> c) \<circ> f) (rev p))"
    by (simp add: rev_map takeWhile_map)
  ultimately show ?thesis
    by (simp add: rfind_def del: set_map)
qed

lemma skip_leading_dots_map:
  assumes "\<And>x. f x = extsep \<longleftrightarrow> x = extsep"
  shows "skip_leading_dots (map f p) i d = skip_leading_dots p i d"
proof -
  have "take 1 (drop k (map f p)) \<noteq> [extsep] \<longleftrightarrow> take 1 (drop k p) \<noteq> [extsep]" for k
  proof (cases "drop k p")
    case Nil
    then show ?thesis by (simp add: drop_map [symmetric] del: drop_map)
  next
    case (Cons x xs)
    then have "drop k (map f p) = f x # map f xs" by (simp add: drop_map)
    with Cons assms show ?thesis by simp
  qed
  then show ?thesis by (simp add: skip_leading_dots_iff)
qed

lemma splitext_lower: "snd (splitext (lower p)) = lower (snd (splitext p))"
  by (simp add: splitext_def lower_def rfind_map skip_leading_dots_map drop_map Let_def)

lemma ext_of_lower: "ext_of (lower p) = ext_of p"
  by (simp add: ext_of_def splitext_lower lower_idem)

section \<open>Properties of the archive loop and of \<^verbatim>\<open>build_archive\<close>\<close>


lemma add_files_done:
  assumes "add_files fs out_name nm files = (Inr (), fs')"
    and "disk fs out_name = Some (Archive k ms)"
  shows "fs' = fs\<lparr>disk := (disk fs)(out_name \<mapsto> Archive k (ms @ map (\<lambda>f. (nm f, f)) files))\<rparr>"
  using assms
proof (induction files arbitrary: fs ms)
  case Nil
  then show ?case by (auto simp add: fun_upd_idem)
next
  case (Cons f files)
  let ?fs1 = "add_member fs out_name (nm f, f)"
  from Cons.prems have run: "add_files ?fs1 out_name nm files = (Inr (), fs')"
    by (simp split: if_splits)
  have d1: "disk ?fs1 out_name = Some (Archive k (ms @ [(nm f, f)]))"
    using Cons.prems(2) by (simp add: add_member_def)
  have fs1: "?fs1 = fs\<lparr>disk := (disk fs)(out_name \<mapsto> Archive k (ms @ [(nm f, f)]))\<rparr>"
    using Cons.prems(2) by (simp add: add_member_def)
  have "fs' = ?fs1\<lparr>disk := (disk ?fs1)(out_name \<mapsto>
      Archive k ((ms @ [(nm f, f)]) @ map (\<lambda>f. (nm f, f)) files))\<rparr>"
    by (rule Cons.IH [OF run d1])
  also have "\<dots> = fs\<lparr>disk := (disk fs)(out_name \<mapsto>
      Archive k (ms @ map (\<lambda>f. (nm f, f)) (f # files)))\<rparr>"
    unfolding fs1 by simp
  finally show ?case .
qed


lemma build_archive_done:
  assumes "build_archive fs files traversal_path target out_name = (Inr (), fs')"
  shows "members fs' out_name =
           kept fs out_name @
           map (\<lambda>f. (internal_name (cwd fs) (normalize_traversal traversal_path) target f, f)) files"
proof -
  from assms obtain w ms where
    w: "select_writer (ext_of out_name) (wmode_of fs out_name) = Inr w"
    and ms: "open_archive fs w out_name = Inr ms"
    and run: "add_files (fs\<lparr>disk := (disk fs)(out_name \<mapsto> Archive (format_of w) ms)\<rparr>) out_name
       (internal_name (cwd fs) (normalize_traversal traversal_path) target) files = (Inr (), fs')"
    by (auto simp add: build_archive_def Let_def split: sum.splits)
  have "kept fs out_name = ms" using w ms by (simp add: kept_def)
  moreover from add_files_done [OF run]
  have "members fs' out_name =
      ms @ map (\<lambda>f. (internal_name (cwd fs) (normalize_traversal traversal_path) target f, f)) files"
    by (simp add: members_def)
  ultimately show ?thesis by simp
qed

lemma entry_for_done:
  assumes "build_archive fs files traversal_path target out_name = (Inr (), fs')"
    and "i < length files"
  shows "entry_for fs fs' out_name i =
           (internal_name (cwd fs) (normalize_traversal traversal_path) target (files ! i), files ! i)"
  using assms by (simp add: entry_for_def build_archive_done)


lemma build_archive_collapse:
  "fst (build_archive fs files tp target out_name) = Inr () \<Longrightarrow>
   build_archive fs files tp target out_name =
     (Inr (), snd (build_archive fs files tp target out_name))"
  by (simp add: prod_eq_iff)

lemma build_archive_format:
  assumes "build_archive fs files traversal_path target out_name = (Inr (), fs')"
  shows "format_at fs' out_name = selected_format fs out_name"
proof -
  from assms obtain w ms where
    w: "select_writer (ext_of out_name) (wmode_of fs out_name) = Inr w"
    and run: "add_files (fs\<lparr>disk := (disk fs)(out_name \<mapsto> Archive (format_of w) ms)\<rparr>) out_name
       (internal_name (cwd fs) (normalize_traversal traversal_path) target) files = (Inr (), fs')"
    by (auto simp add: build_archive_def Let_def split: sum.splits)
  from add_files_done [OF run] have "format_at fs' out_name = Some (format_of w)"
    by (simp add: format_at_def)
  with w show ?thesis by (simp add: selected_format_def)
qed

lemma selected_format_table:
  "selected_format fs out_name =
     (if ext_of out_name \<in> {''.zip'', ''.jar''} then Some ZipFormat
      else if ext_of out_name = ''.tar'' then Some TarFormat
      else if ext_of out_name \<in> {''.gz'', ''.tgz''} then Some TarGzFormat
      else if ext_of out_name = ''.bz2'' then Some TarBz2Format
      else None)"
  by (simp add: selected_format_def select_writer_def mode_table_def format_of_def
      wmode_of_def)

lemma selected_format_ext:
  "ext_of out1 = ext_of out2 \<Longrightarrow> selected_format fs1 out1 = selected_format fs2 out2"
  by (simp add: selected_format_table)

lemma normalize_traversal_idem:
  "normalize_traversal (normalize_traversal tp) = normalize_traversal tp"
  by (simp add: normalize_traversal_def endswith_def)

lemma normalize_traversal_slash:
  "tp \<noteq> [] \<Longrightarrow> \<not> endswith tp [sep, backslash] \<Longrightarrow>
   normalize_traversal (tp @ [sep]) = normalize_traversal tp"
  by (simp add: normalize_traversal_def endswith_def)

lemma build_archive_normalized:
  "normalize_traversal tp1 = normalize_traversal tp2 \<Longrightarrow>
   build_archive fs files tp1 target out_name = build_archive fs files tp2 target out_name"
  by (simp add: build_archive_def)







section \<open>Absolute paths keep the file name\<close>













section \<open>The claims\<close>



text \<open>
  C2. In a completed build, the member written for an input file whose absolute path
  differs from the target's is stored under its base name alone, which contains no
  \<^verbatim>\<open>/\<close>.
\<close>

theorem other_entry_name:
  assumes "build_archive fs files traversal_path target out_name = (Inr (), fs')"
    and "i < length files"
    and "abspath (cwd fs) (files ! i) \<noteq> abspath (cwd fs) target"
  shows "entry_for fs fs' out_name i = (basename (files ! i), files ! i)
         \<and> sep \<notin> set (basename (files ! i))"
  using assms by (simp add: entry_for_done internal_name_def basename_free_of_sep)

theorem other_entry_name_witness:
  "entry_for demo_fs
     (snd (build_archive demo_fs [''a.txt'', ''docs/b.txt''] ''../../tmp/evil''
        ''a.txt'' ''x.tar''))
     ''x.tar'' 1 = (''b.txt'', ''docs/b.txt'')
   \<and> sep \<notin> set ''b.txt''"
proof -
  let ?files = "[''a.txt'', ''docs/b.txt'']"
  have "fst (build_archive demo_fs ?files ''../../tmp/evil'' ''a.txt'' ''x.tar'') = Inr ()"
    by code_simp
  then have run: "build_archive demo_fs ?files ''../../tmp/evil'' ''a.txt'' ''x.tar'' =
      (Inr (), snd (build_archive demo_fs ?files ''../../tmp/evil'' ''a.txt'' ''x.tar''))"
    by (rule build_archive_collapse)
  have i: "(1::nat) < length ?files" by simp
  have other: "abspath (cwd demo_fs) (?files ! 1) \<noteq> abspath (cwd demo_fs) ''a.txt''"
    by code_simp
  have b: "basename ''docs/b.txt'' = ''b.txt''"
    by code_simp
  from other_entry_name [OF run i other] show ?thesis
    by (simp add: b)
qed









text \<open>
  C6. Normalising the traversal path is idempotent, and the build depends on the
  traversal path only through its normal form: a path without a trailing separator and
  the same path with \<^verbatim>\<open>/\<close> appended give the same build, so \<^verbatim>\<open>a/b\<close> and
  \<^verbatim>\<open>a/b/\<close> give the same member names (no double separator).
\<close>

theorem traversal_normalization_idempotent:
  "normalize_traversal (normalize_traversal traversal_path) = normalize_traversal traversal_path
   \<and> build_archive fs files (normalize_traversal traversal_path) target out_name =
       build_archive fs files traversal_path target out_name
   \<and> (traversal_path \<noteq> [] \<and> \<not> endswith traversal_path [sep, backslash] \<longrightarrow>
        build_archive fs files (traversal_path @ [sep]) target out_name =
        build_archive fs files traversal_path target out_name)
   \<and> build_archive fs files ''a/b/'' target out_name =
       build_archive fs files ''a/b'' target out_name"
proof -
  have "normalize_traversal ''a/b/'' = normalize_traversal ''a/b''"
    by (simp add: normalize_traversal_def endswith_def)
  then show ?thesis
    by (simp add: normalize_traversal_idem normalize_traversal_slash
        build_archive_normalized [of "normalize_traversal traversal_path" traversal_path]
        build_archive_normalized [of "traversal_path @ [sep]" traversal_path]
        build_archive_normalized [of "''a/b/''" "''a/b''"])
qed

theorem traversal_normalization_idempotent_witness:
  "map fst (members (snd (build_archive demo_fs [''a.txt'', ''b.txt''] ''a/b/'' ''a.txt''
      ''x.tar.bz2'')) ''x.tar.bz2'') = [''a/b/a.txt'', ''b.txt'']
   \<and> map fst (members (snd (build_archive demo_fs [''a.txt'', ''b.txt''] ''a/b'' ''a.txt''
      ''x.tar.bz2'')) ''x.tar.bz2'') = [''a/b/a.txt'', ''b.txt'']"
proof -
  have "map fst (members (snd (build_archive demo_fs [''a.txt'', ''b.txt''] ''a/b'' ''a.txt''
      ''x.tar.bz2'')) ''x.tar.bz2'') = [''a/b/a.txt'', ''b.txt'']"
    by code_simp
  moreover have "\<not> endswith ''a/b'' [sep, backslash]"
    by (simp add: endswith_def)
  ultimately show ?thesis
    using traversal_normalization_idempotent
      [of "''a/b''" demo_fs "[''a.txt'', ''b.txt'']" "''a.txt''" "''x.tar.bz2''"]
    by simp
qed

text \<open>
  C7. An output name whose lower-cased extension is none of \<^verbatim>\<open>.zip\<close>, \<^verbatim>\<open>.jar\<close>,
  \<^verbatim>\<open>.tar\<close>, \<^verbatim>\<open>.gz\<close>, \<^verbatim>\<open>.tgz\<close>, \<^verbatim>\<open>.bz2\<close> makes the build end with
  \<^verbatim>\<open>sys.exit("Unsupported archive extension: ...")\<close>; the file system is the one the
  build started from (nothing was opened or written), and no writer is chosen in place
  of the missing one.
\<close>

theorem unsupported_extension_exits:
  assumes "ext_of out_name \<notin> {''.zip'', ''.jar'', ''.tar'', ''.gz'', ''.tgz'', ''.bz2''}"
  shows "build_archive fs files traversal_path target out_name =
           (Inl (SystemExit (''Unsupported archive extension: '' @ ext_of out_name)), fs)"
  using assms by (simp add: build_archive_def select_writer_def)

theorem unsupported_extension_exits_witness:
  "build_archive demo_fs [''a.txt'', ''b.txt''] ''../../tmp/evil'' ''a.txt'' ''x.rar'' =
     (Inl (SystemExit ''Unsupported archive extension: .rar''), demo_fs)"
proof -
  have e: "ext_of ''x.rar'' = ''.rar''" by code_simp
  then have "ext_of ''x.rar'' \<notin> {''.zip'', ''.jar'', ''.tar'', ''.gz'', ''.tgz'', ''.bz2''}"
    by simp
  from unsupported_extension_exits
    [OF this, of demo_fs "[''a.txt'', ''b.txt'']" "''../../tmp/evil''" "''a.txt''"]
  show ?thesis by (simp add: e)
qed

text \<open>
  C8. The container format depends on the output name only through its lower-cased
  extension, not on the file system: two names that differ only in the letter case of
  a final part select the same format, names with the same lower-cased extension
  select the same format, and the table is zip for \<^verbatim>\<open>.zip\<close>/\<^verbatim>\<open>.jar\<close>, plain tar for
  \<^verbatim>\<open>.tar\<close>, gzip tar for \<^verbatim>\<open>.gz\<close>/\<^verbatim>\<open>.tgz\<close>, bzip2 tar for \<^verbatim>\<open>.bz2\<close>. The
  archive that a completed build leaves at the output name has the selected format.
\<close>

theorem format_selection_case_insensitive:
  "(lower e1 = lower e2 \<longrightarrow>
      selected_format fs1 (root @ e1) = selected_format fs2 (root @ e2))
   \<and> (ext_of out1 = ext_of out2 \<longrightarrow> selected_format fs1 out1 = selected_format fs2 out2)
   \<and> selected_format fs out_name =
       (if ext_of out_name \<in> {''.zip'', ''.jar''} then Some ZipFormat
        else if ext_of out_name = ''.tar'' then Some TarFormat
        else if ext_of out_name \<in> {''.gz'', ''.tgz''} then Some TarGzFormat
        else if ext_of out_name = ''.bz2'' then Some TarBz2Format
        else None)
   \<and> (build_archive fs files traversal_path target out_name = (Inr (), fs') \<longrightarrow>
        format_at fs' out_name = selected_format fs out_name)"
proof -
  have "selected_format fs1 (root @ e1) = selected_format fs2 (root @ e2)"
    if "lower e1 = lower e2"
  proof -
    from that have "lower (root @ e1) = lower (root @ e2)"
      by (simp add: lower_def)
    then have "ext_of (lower (root @ e1)) = ext_of (lower (root @ e2))"
      by simp
    then have "ext_of (root @ e1) = ext_of (root @ e2)"
      by (simp only: ext_of_lower)
    then show ?thesis by (rule selected_format_ext)
  qed
  then show ?thesis
    using selected_format_table [of fs out_name] selected_format_ext [of out1 out2 fs1 fs2]
      build_archive_format [of fs files traversal_path target out_name fs']
    by blast
qed

theorem format_selection_case_insensitive_witness:
  "selected_format demo_fs ''out.ZIP'' = Some ZipFormat
   \<and> selected_format demo_fs ''out.zip'' = Some ZipFormat
   \<and> selected_format demo_fs ''x.Tar.GZ'' = Some TarGzFormat
   \<and> format_at (snd (build_archive demo_fs [''a.txt'', ''b.txt''] ''..'' ''a.txt'' ''x.Tar.GZ''))
        ''x.Tar.GZ'' = Some TarGzFormat"
proof -
  have l: "lower ''.ZIP'' = lower ''.zip''" by code_simp
  have z: "selected_format demo_fs ''out.zip'' = Some ZipFormat" by code_simp
  have g: "ext_of ''x.Tar.GZ'' = ''.gz''" by code_simp
  have "fst (build_archive demo_fs [''a.txt'', ''b.txt''] ''..'' ''a.txt'' ''x.Tar.GZ'') = Inr ()"
    by code_simp
  then have run: "build_archive demo_fs [''a.txt'', ''b.txt''] ''..'' ''a.txt'' ''x.Tar.GZ'' =
      (Inr (), snd (build_archive demo_fs [''a.txt'', ''b.txt''] ''..'' ''a.txt'' ''x.Tar.GZ''))"
    by (rule build_archive_collapse)
  from format_selection_case_insensitive
    [of "''.ZIP''" "''.zip''" demo_fs "''out''" demo_fs "''x.Tar.GZ''" "''x.Tar.GZ''"
        demo_fs "''x.Tar.GZ''" "[''a.txt'', ''b.txt'']" "''..''" "''a.txt''"
        "snd (build_archive demo_fs [''a.txt'', ''b.txt''] ''..'' ''a.txt'' ''x.Tar.GZ'')"]
  show ?thesis using l z g run by simp
qed

text \<open>
  C9. With the empty traversal path nothing is appended to it, and a completed build
  stores every input file, the target included, under its bare base name.
\<close>

theorem empty_traversal_path:
  assumes "build_archive fs files [] target out_name = (Inr (), fs')"
    and "i < length files"
  shows "normalize_traversal [] = []
         \<and> entry_for fs fs' out_name i = (basename (files ! i), files ! i)"
  using assms by (simp add: entry_for_done internal_name_def normalize_traversal_def)

theorem empty_traversal_path_witness:
  "normalize_traversal [] = []
   \<and> entry_for demo_fs
       (snd (build_archive demo_fs [''a.txt'', ''b.txt''] [] ''a.txt'' ''x.zip'')) ''x.zip'' 0 =
     (''a.txt'', ''a.txt'')"
proof -
  let ?files = "[''a.txt'', ''b.txt'']"
  have "fst (build_archive demo_fs ?files [] ''a.txt'' ''x.zip'') = Inr ()"
    by code_simp
  then have run: "build_archive demo_fs ?files [] ''a.txt'' ''x.zip'' =
      (Inr (), snd (build_archive demo_fs ?files [] ''a.txt'' ''x.zip''))"
    by (rule build_archive_collapse)
  have i: "(0::nat) < length ?files" by simp
  have b: "basename ''a.txt'' = ''a.txt''"
    by code_simp
  from empty_traversal_path [OF run i] show ?thesis
    by (simp add: b)
qed

text \<open>
  C10. As stated the claim fails for an output name such as \<^verbatim>\<open>.gz\<close>: the dispatch
  takes the extension from \<^verbatim>\<open>os.path.splitext\<close>, for which leading dots of the last
  path component belong to the root. What holds: when the last component of \<open>stem\<close>
  has a character other than a dot, the extension of \<open>stem\<close> followed by a dot and a
  dot-free, slash-free suffix is that dot and suffix, lower-cased, so \<^verbatim>\<open>.gz\<close> and
  \<^verbatim>\<open>.bz2\<close> select the compressed tar writers with or without a preceding
  \<^verbatim>\<open>.tar\<close>; when the last component of \<open>stem\<close> consists of dots only (or is empty),
  there is no extension and the build exits as unsupported. A traversal path that ends
  in a backslash gets no \<^verbatim>\<open>/\<close> appended.
\<close>

theorem extension_dispatch:
  "((\<exists>c\<in>set (basename stem). c \<noteq> extsep) \<longrightarrow>
      select_writer (ext_of (stem @ ''.gz'')) wmode = Inr (TarOpen ModeWGz)
      \<and> select_writer (ext_of (stem @ ''.bz2'')) wmode = Inr (TarOpen ModeWBz2)
      \<and> selected_format fs (stem @ ''.gz'') = Some TarGzFormat
      \<and> selected_format fs (stem @ ''.bz2'') = Some TarBz2Format
      \<and> (extsep \<notin> set e \<and> sep \<notin> set e \<longrightarrow>
           ext_of (stem @ extsep # e) = extsep # lower e))
   \<and> ((\<forall>c\<in>set (basename stem). c = extsep) \<and> extsep \<notin> set e \<and> sep \<notin> set e \<longrightarrow>
        ext_of (stem @ extsep # e) = []
        \<and> build_archive fs files traversal_path target (stem @ extsep # e) =
            (Inl (SystemExit ''Unsupported archive extension: ''), fs))
   \<and> normalize_traversal (traversal_path @ [backslash]) = traversal_path @ [backslash]"
proof -
  have pos: "ext_of (stem @ extsep # e) = extsep # lower e"
    if "\<exists>c\<in>set (basename stem). c \<noteq> extsep" "extsep \<notin> set e" "sep \<notin> set e" for e
    using splitext_extension [OF that] by (simp add: ext_of_def lower_def)
  have gz: "ext_of (stem @ ''.gz'') = ''.gz''"
    if "\<exists>c\<in>set (basename stem). c \<noteq> extsep"
    using pos [OF that, of "''gz''"] by (simp add: lower_def lower_char_def)
  have bz: "ext_of (stem @ ''.bz2'') = ''.bz2''"
    if "\<exists>c\<in>set (basename stem). c \<noteq> extsep"
    using pos [OF that, of "''bz2''"] by (simp add: lower_def lower_char_def)
  have first: "select_writer (ext_of (stem @ ''.gz'')) wmode = Inr (TarOpen ModeWGz)
      \<and> select_writer (ext_of (stem @ ''.bz2'')) wmode = Inr (TarOpen ModeWBz2)
      \<and> selected_format fs (stem @ ''.gz'') = Some TarGzFormat
      \<and> selected_format fs (stem @ ''.bz2'') = Some TarBz2Format"
    if "\<exists>c\<in>set (basename stem). c \<noteq> extsep"
    by (simp add: gz [OF that] bz [OF that] selected_format_table select_writer_def
        mode_table_def)
  have neg: "ext_of (stem @ extsep # e) = []
      \<and> build_archive fs files traversal_path target (stem @ extsep # e) =
          (Inl (SystemExit ''Unsupported archive extension: ''), fs)"
    if "\<forall>c\<in>set (basename stem). c = extsep" "extsep \<notin> set e" "sep \<notin> set e"
  proof -
    have "ext_of (stem @ extsep # e) = []"
      using splitext_no_extension [OF that] by (simp add: ext_of_def lower_def)
    then show ?thesis
      by (simp add: build_archive_def select_writer_def)
  qed
  have "normalize_traversal (traversal_path @ [backslash]) = traversal_path @ [backslash]"
    by (simp add: normalize_traversal_def endswith_def)
  with first pos neg show ?thesis by blast
qed

theorem extension_dispatch_witness:
  "select_writer (ext_of ''x.gz'') ModeW = Inr (TarOpen ModeWGz)
   \<and> select_writer (ext_of ''x.tar.gz'') ModeW = Inr (TarOpen ModeWGz)
   \<and> selected_format demo_fs ''x.bz2'' = Some TarBz2Format
   \<and> ext_of ''dir/..bz2'' = []
   \<and> normalize_traversal [CHR ''.'', CHR ''.'', backslash] = [CHR ''.'', CHR ''.'', backslash]"
proof -
  have x: "\<exists>c\<in>set (basename ''x''). c \<noteq> extsep" by code_simp
  have xt: "\<exists>c\<in>set (basename ''x.tar''). c \<noteq> extsep" by code_simp
  have d: "(\<forall>c\<in>set (basename ''dir/.''). c = extsep) \<and> extsep \<notin> set ''bz2'' \<and> sep \<notin> set ''bz2''"
    by code_simp
  note a = extension_dispatch [of "''x''" ModeW demo_fs "[]" "[]" "''..''" "[]"]
  note b = extension_dispatch [of "''x.tar''" ModeW demo_fs "[]" "[]" "''..''" "[]"]
  note c = extension_dispatch [of "''dir/.''" ModeW demo_fs "''bz2''" "[]" "''..''" "[]"]
  from a x have "select_writer (ext_of (''x'' @ ''.gz'')) ModeW = Inr (TarOpen ModeWGz)"
    "selected_format demo_fs (''x'' @ ''.bz2'') = Some TarBz2Format"
    "normalize_traversal (''..'' @ [backslash]) = ''..'' @ [backslash]"
    by blast+
  moreover from b xt have "select_writer (ext_of (''x.tar'' @ ''.gz'')) ModeW = Inr (TarOpen ModeWGz)"
    by blast
  moreover from c d have "ext_of (''dir/.'' @ extsep # ''bz2'') = []"
    by blast
  ultimately show ?thesis by simp
qed

theorem extension_dispatch_counterexample:
  "build_archive demo_fs [''a.txt'', ''b.txt''] ''../../tmp/evil'' ''a.txt'' ''.gz'' =
     (Inl (SystemExit ''Unsupported archive extension: ''), demo_fs)"
proof -
  have "ext_of ''.gz'' = []" by code_simp
  then show ?thesis
    by (simp add: build_archive_def select_writer_def)
qed

end
